theory Spec2Isabelle
  imports Main
begin

section \<open>Data model\<close>

text \<open>
  The file-change watcher of \<^verbatim>\<open>src/core/FileWatcher.cpp\<close>.  A \<^verbatim>\<open>QString\<close> and a
  \<^verbatim>\<open>QByteArray\<close> are character lists.  The file system is what \<^verbatim>\<open>QFile::open(ReadOnly)\<close>
  sees of it: the bytes of a file that opens, \<open>None\<close> for a path that cannot be opened.
  \<^verbatim>\<open>QCryptographicHash(Sha256)\<close> is library code; every function that hashes takes the
  hash function as its first argument.
\<close>

type_synonym QString = string
type_synonym QByteArray = string
type_synonym filesystem = "QString \<Rightarrow> QByteArray option"
type_synonym hashfn = "QByteArray \<Rightarrow> QByteArray"

text \<open>A C++ \<^verbatim>\<open>int\<close> is 32 bits wide; \<open>int_wrap\<close> is the value a product is stored as.\<close>

definition int_wrap :: "int \<Rightarrow> int" where
  "int_wrap x = (x + 2147483648) mod 4294967296 - 2147483648"

text \<open>
  The fields of class \<^verbatim>\<open>FileWatcherPrivate\<close> (lines 156 to 162).  A single-shot timer is
  its \<^verbatim>\<open>isActive()\<close> flag; the periodic checksum timer is \<open>Some\<close> of its interval in
  milliseconds while it runs.  \<open>pendingChecks\<close> is not a field of the class: it counts the
  futures that \<^verbatim>\<open>AsyncTask::runThenCallback\<close> has started with this object as context and
  whose callback has not run yet.
\<close>

record FileWatcherPrivate =
  m_filePath :: QString
  m_fileChecksum :: QByteArray
  m_fileChangeDelayTimer :: bool
  m_fileIgnoreDelayTimer :: bool
  m_fileChecksumTimer :: "int option"
  m_fileChecksumSizeBytes :: int
  m_ignoreFileChange :: bool
  pendingChecks :: nat

text \<open>The constructor (lines 34 to 41) and the member initialisers.\<close>

definition FileWatcherPrivate_new :: FileWatcherPrivate where
  "FileWatcherPrivate_new =
     \<lparr>m_filePath = [], m_fileChecksum = [], m_fileChangeDelayTimer = False,
      m_fileIgnoreDelayTimer = False, m_fileChecksumTimer = None,
      m_fileChecksumSizeBytes = - 1, m_ignoreFileChange = False, pendingChecks = 0\<rparr>"

section \<open>The per-path watch\<close>

text \<open>\<^verbatim>\<open>calculateChecksum\<close> (lines 133 to 148); \<^verbatim>\<open>file.read(n)\<close> reads at most \<open>n\<close> bytes.\<close>

definition calculateChecksum :: "hashfn \<Rightarrow> filesystem \<Rightarrow> FileWatcherPrivate \<Rightarrow> QByteArray" where
  "calculateChecksum sha256 fs w =
     (case fs (m_filePath w) of
        Some content \<Rightarrow>
          (if m_fileChecksumSizeBytes w > 0
           then sha256 (take (nat (m_fileChecksumSizeBytes w)) content)
           else sha256 content)
      | None \<Rightarrow> m_fileChecksum w)"

text \<open>\<^verbatim>\<open>shouldIgnoreChanges\<close> (lines 150 to 154).\<close>

definition shouldIgnoreChanges :: "FileWatcherPrivate \<Rightarrow> bool" where
  "shouldIgnoreChanges w =
     (m_filePath w = [] \<or> m_ignoreFileChange w \<or> m_fileIgnoreDelayTimer w
      \<or> m_fileChangeDelayTimer w)"

text \<open>\<^verbatim>\<open>stop\<close> (lines 79 to 85).\<close>

definition stop :: "FileWatcherPrivate \<Rightarrow> FileWatcherPrivate" where
  "stop w = w\<lparr>m_filePath := [], m_fileChecksum := [], m_fileChecksumTimer := None,
              m_fileChangeDelayTimer := False\<rparr>"

text \<open>
  \<^verbatim>\<open>start\<close> (lines 48 to 77).  The block under \<^verbatim>\<open>Q_OS_LINUX\<close> only names the notification
  engine and touches no field of the watch.
\<close>

definition start ::
  "hashfn \<Rightarrow> filesystem \<Rightarrow> QString \<Rightarrow> int \<Rightarrow> int \<Rightarrow> FileWatcherPrivate \<Rightarrow> FileWatcherPrivate" where
  "start sha256 fs path checksumIntervalSeconds checksumSizeKibibytes w =
     (let w1 = (stop w)\<lparr>m_filePath := path\<rparr>;
          w2 = w1\<lparr>m_fileChecksumSizeBytes := int_wrap (checksumSizeKibibytes * 1024)\<rparr>;
          w3 = w2\<lparr>m_fileChecksum := calculateChecksum sha256 fs w2\<rparr>;
          w4 = (if checksumIntervalSeconds > 0
                then w3\<lparr>m_fileChecksumTimer := Some (int_wrap (checksumIntervalSeconds * 1000))\<rparr>
                else w3)
      in w4\<lparr>m_ignoreFileChange := False\<rparr>)"

text \<open>\<^verbatim>\<open>hasSameFileChecksum\<close> (lines 87 to 90).\<close>

definition hasSameFileChecksum :: "hashfn \<Rightarrow> filesystem \<Rightarrow> FileWatcherPrivate \<Rightarrow> bool" where
  "hasSameFileChecksum sha256 fs w = (calculateChecksum sha256 fs w = m_fileChecksum w)"

text \<open>\<^verbatim>\<open>pause\<close> (lines 96 to 100) and \<^verbatim>\<open>resume\<close> (lines 102 to 109).\<close>

definition pause :: "FileWatcherPrivate \<Rightarrow> FileWatcherPrivate" where
  "pause w = w\<lparr>m_ignoreFileChange := True, m_fileChangeDelayTimer := False\<rparr>"

definition resume :: "FileWatcherPrivate \<Rightarrow> FileWatcherPrivate" where
  "resume w =
     (let w1 = w\<lparr>m_ignoreFileChange := False\<rparr>
      in if \<not> m_fileIgnoreDelayTimer w1 then w1\<lparr>m_fileIgnoreDelayTimer := True\<rparr> else w1)"

text \<open>
  \<^verbatim>\<open>checkFileChanged\<close> (lines 111 to 130), up to the call of \<^verbatim>\<open>runThenCallback\<close>: the
  gate, the guard flag, and one more future in flight.
\<close>

definition checkFileChanged :: "FileWatcherPrivate \<Rightarrow> FileWatcherPrivate" where
  "checkFileChanged w =
     (if shouldIgnoreChanges w then w
      else w\<lparr>m_ignoreFileChange := True, pendingChecks := Suc (pendingChecks w)\<rparr>)"

text \<open>The callback of lines 122 to 129, run on the control thread with the digest computed.\<close>

definition checksumCallback :: "QByteArray \<Rightarrow> FileWatcherPrivate \<Rightarrow> FileWatcherPrivate" where
  "checksumCallback checksum w =
     (let w1 = (if checksum \<noteq> m_fileChecksum w
                then w\<lparr>m_fileChecksum := checksum, m_fileChangeDelayTimer := True\<rparr>
                else w)
      in w1\<lparr>m_ignoreFileChange := False\<rparr>)"

text \<open>
  Modelled from the spec: \<^verbatim>\<open>AsyncTask::runThenCallback\<close> (core/AsyncTask.h) is not among the
  sources.  The spec gives its contract: the computation runs off the control thread and its
  result is delivered once, later, as a task on the control thread.  So a result arrives only
  for a future that is in flight, takes it out of flight and runs the callback on it.
\<close>

definition deliverChecksum :: "QByteArray \<Rightarrow> FileWatcherPrivate \<Rightarrow> FileWatcherPrivate" where
  "deliverChecksum checksum w =
     (if pendingChecks w = 0 then w
      else checksumCallback checksum (w\<lparr>pendingChecks := pendingChecks w - 1\<rparr>))"

text \<open>
  The timeouts.  The change-delay timer is single-shot and connected to the lambda of line 38,
  which emits \<^verbatim>\<open>fileChanged(m_filePath)\<close>; the result is the list of paths emitted and the
  watch afterwards.  The ignore-delay timer is single-shot and connected to nothing.  The
  checksum timer is periodic and connected to \<^verbatim>\<open>checkFileChanged\<close> (line 37).
\<close>

definition fileChangeDelayTimeout :: "FileWatcherPrivate \<Rightarrow> QString list \<times> FileWatcherPrivate" where
  "fileChangeDelayTimeout w =
     (if m_fileChangeDelayTimer w then ([m_filePath w], w\<lparr>m_fileChangeDelayTimer := False\<rparr>)
      else ([], w))"

definition fileIgnoreDelayTimeout :: "FileWatcherPrivate \<Rightarrow> FileWatcherPrivate" where
  "fileIgnoreDelayTimeout w = w\<lparr>m_fileIgnoreDelayTimer := False\<rparr>"

definition fileChecksumTimeout :: "FileWatcherPrivate \<Rightarrow> FileWatcherPrivate" where
  "fileChecksumTimeout w = (if m_fileChecksumTimer w = None then w else checkFileChanged w)"

section \<open>The registry\<close>

text \<open>
  Class \<^verbatim>\<open>FileWatcher\<close>: the hash \<^verbatim>\<open>m_watches\<close> and the \<^verbatim>\<open>QFileSystemWatcher\<close>, which is the
  set of paths it is subscribed to.
\<close>

record FileWatcher =
  m_watches :: "QString \<rightharpoonup> FileWatcherPrivate"
  m_fileWatcher :: "QString set"

definition FileWatcher_new :: FileWatcher where
  "FileWatcher_new = \<lparr>m_watches = Map.empty, m_fileWatcher = {}\<rparr>"

text \<open>
  \<^verbatim>\<open>QFileSystemWatcher::addPath\<close> is library code.  By its documentation the path is not
  added when it does not exist or is monitored already, and the call returns whether it was
  added.
\<close>

definition QFileSystemWatcher_addPath :: "filesystem \<Rightarrow> QString \<Rightarrow> QString set \<Rightarrow> bool \<times> QString set" where
  "QFileSystemWatcher_addPath fs path files =
     (if fs path \<noteq> None \<and> path \<notin> files then (True, insert path files) else (False, files))"

text \<open>\<^verbatim>\<open>FileWatcher::addPath\<close> (lines 177 to 186); the result of the subscription is dropped.\<close>

definition FileWatcher_addPath ::
  "hashfn \<Rightarrow> filesystem \<Rightarrow> QString \<Rightarrow> int \<Rightarrow> int \<Rightarrow> FileWatcher \<Rightarrow> FileWatcher" where
  "FileWatcher_addPath sha256 fs path checksumIntervalSeconds checksumSizeKibibytes r =
     (let r1 = (if m_watches r path = None
                then r\<lparr>m_fileWatcher := snd (QFileSystemWatcher_addPath fs path (m_fileWatcher r)),
                       m_watches := (m_watches r)(path \<mapsto> FileWatcherPrivate_new)\<rparr>
                else r)
      in case m_watches r1 path of
           Some w \<Rightarrow>
             r1\<lparr>m_watches := (m_watches r1)(path \<mapsto>
                   start sha256 fs path checksumIntervalSeconds checksumSizeKibibytes w)\<rparr>
         | None \<Rightarrow> r1)"

text \<open>\<^verbatim>\<open>FileWatcher::removePath\<close> (lines 195 to 201).\<close>

definition FileWatcher_removePath :: "QString \<Rightarrow> FileWatcher \<Rightarrow> FileWatcher" where
  "FileWatcher_removePath path r =
     (if m_watches r path \<noteq> None
      then r\<lparr>m_fileWatcher := m_fileWatcher r - {path}, m_watches := (m_watches r)(path := None)\<rparr>
      else r)"

text \<open>\<^verbatim>\<open>FileWatcher::checkFileChanged\<close> (lines 203 to 209).\<close>

definition FileWatcher_checkFileChanged :: "QString \<Rightarrow> FileWatcher \<Rightarrow> FileWatcher" where
  "FileWatcher_checkFileChanged path r =
     (case m_watches r path of
        Some w \<Rightarrow> r\<lparr>m_watches := (m_watches r)(path \<mapsto> checkFileChanged w)\<rparr>
      | None \<Rightarrow> r)"

text \<open>\<^verbatim>\<open>FileWatcher::hasSameFileChecksum\<close> (lines 211 to 218).\<close>

definition FileWatcher_hasSameFileChecksum :: "hashfn \<Rightarrow> filesystem \<Rightarrow> QString \<Rightarrow> FileWatcher \<Rightarrow> bool" where
  "FileWatcher_hasSameFileChecksum sha256 fs path r =
     (case m_watches r path of
        Some w \<Rightarrow> hasSameFileChecksum sha256 fs w
      | None \<Rightarrow> False)"

text \<open>\<^verbatim>\<open>FileWatcher::pause\<close> and \<^verbatim>\<open>FileWatcher::resume\<close> (lines 220 to 232).\<close>

definition FileWatcher_pause :: "FileWatcher \<Rightarrow> FileWatcher" where
  "FileWatcher_pause r = r\<lparr>m_watches := (\<lambda>p. map_option pause (m_watches r p))\<rparr>"

definition FileWatcher_resume :: "FileWatcher \<Rightarrow> FileWatcher" where
  "FileWatcher_resume r = r\<lparr>m_watches := (\<lambda>p. map_option resume (m_watches r p))\<rparr>"

section \<open>The control thread\<close>

text \<open>
  Everything that reaches the registry on the control thread: the calls of its interface, the
  \<^verbatim>\<open>fileChanged\<close> signal of the notification backend, the timeouts of a watch's timers and
  the result of a watch's checksum future.  A step gives the paths the registry's own
  \<^verbatim>\<open>fileChanged\<close> signal is emitted with (the connection of line 183 forwards a watch's
  signal) and the registry afterwards.  A timeout of a timer that is not active, and a result
  or a timeout for a watch that has been destroyed, do not happen: such a step changes nothing.
\<close>

datatype event =
    AddPath filesystem QString int int
  | RemovePath QString
  | Pause
  | Resume
  | OsEvent QString
  | ChecksumTimeout QString
  | ChecksumResult QString QByteArray
  | ChangeDelayTimeout QString
  | IgnoreDelayTimeout QString

definition onWatch ::
  "QString \<Rightarrow> (FileWatcherPrivate \<Rightarrow> QString list \<times> FileWatcherPrivate) \<Rightarrow> FileWatcher
     \<Rightarrow> QString list \<times> FileWatcher" where
  "onWatch path f r =
     (case m_watches r path of
        Some w \<Rightarrow> (fst (f w), r\<lparr>m_watches := (m_watches r)(path \<mapsto> snd (f w))\<rparr>)
      | None \<Rightarrow> ([], r))"

fun step :: "hashfn \<Rightarrow> event \<Rightarrow> FileWatcher \<Rightarrow> QString list \<times> FileWatcher" where
  "step sha256 (AddPath fs path i k) r = ([], FileWatcher_addPath sha256 fs path i k r)"
| "step sha256 (RemovePath path) r = ([], FileWatcher_removePath path r)"
| "step sha256 Pause r = ([], FileWatcher_pause r)"
| "step sha256 Resume r = ([], FileWatcher_resume r)"
| "step sha256 (OsEvent path) r = ([], FileWatcher_checkFileChanged path r)"
| "step sha256 (ChecksumTimeout path) r = onWatch path (\<lambda>w. ([], fileChecksumTimeout w)) r"
| "step sha256 (ChecksumResult path c) r = onWatch path (\<lambda>w. ([], deliverChecksum c w)) r"
| "step sha256 (ChangeDelayTimeout path) r = onWatch path fileChangeDelayTimeout r"
| "step sha256 (IgnoreDelayTimeout path) r = onWatch path (\<lambda>w. ([], fileIgnoreDelayTimeout w)) r"

fun run :: "hashfn \<Rightarrow> event list \<Rightarrow> FileWatcher \<Rightarrow> QString list \<times> FileWatcher" where
  "run sha256 [] r = ([], r)"
| "run sha256 (e # es) r =
     (let (out1, r1) = step sha256 e r; (out2, r2) = run sha256 es r1 in (out1 @ out2, r2))"

section \<open>Views used in the proofs\<close>

text \<open>What one step does to the watch stored under one path.\<close>

fun stepWatch :: "hashfn \<Rightarrow> QString \<Rightarrow> event \<Rightarrow> FileWatcherPrivate option \<Rightarrow> FileWatcherPrivate option" where
  "stepWatch sha256 p (AddPath fs q i k) v =
     (if q = p
      then Some (start sha256 fs p i k (case v of None \<Rightarrow> FileWatcherPrivate_new | Some w \<Rightarrow> w))
      else v)"
| "stepWatch sha256 p (RemovePath q) v = (if q = p then None else v)"
| "stepWatch sha256 p Pause v = map_option pause v"
| "stepWatch sha256 p Resume v = map_option resume v"
| "stepWatch sha256 p (OsEvent q) v = (if q = p then map_option checkFileChanged v else v)"
| "stepWatch sha256 p (ChecksumTimeout q) v = (if q = p then map_option fileChecksumTimeout v else v)"
| "stepWatch sha256 p (ChecksumResult q c) v = (if q = p then map_option (deliverChecksum c) v else v)"
| "stepWatch sha256 p (ChangeDelayTimeout q) v =
     (if q = p then map_option (\<lambda>w. snd (fileChangeDelayTimeout w)) v else v)"
| "stepWatch sha256 p (IgnoreDelayTimeout q) v = (if q = p then map_option fileIgnoreDelayTimeout v else v)"

text \<open>
  The events that leave the flag \<^verbatim>\<open>m_ignoreFileChange\<close> of the watch of a path to the gate
  and the callback: every event but \<^verbatim>\<open>resume()\<close> and a registration of that path again.
\<close>

fun keepsFlag :: "QString \<Rightarrow> event \<Rightarrow> bool" where
  "keepsFlag p Resume = False"
| "keepsFlag p (AddPath fs q i k) = (q \<noteq> p)"
| "keepsFlag p e = True"

text \<open>
  The events that can happen for a path while its ignore window is open: every event but
  the timeout of its ignore-delay timer and a registration of that path again.
\<close>

fun insideIgnoreWindow :: "QString \<Rightarrow> event \<Rightarrow> bool" where
  "insideIgnoreWindow p (IgnoreDelayTimeout q) = (q \<noteq> p)"
| "insideIgnoreWindow p (AddPath fs q i k) = (q \<noteq> p)"
| "insideIgnoreWindow p e = True"

text \<open>
  Three states of a watch.  \<open>guarded\<close>: no check is in flight, or one is and the flag is
  set.  \<open>paused\<close>: the flag is set, no notification is pending and no check is in flight.
  \<open>draining\<close>: the ignore window is open, no notification is pending and no check is in
  flight.
\<close>

definition guarded :: "FileWatcherPrivate \<Rightarrow> bool" where
  "guarded w = (pendingChecks w = 0 \<or> (pendingChecks w = 1 \<and> m_ignoreFileChange w))"

definition paused :: "FileWatcherPrivate \<Rightarrow> bool" where
  "paused w = (m_ignoreFileChange w \<and> \<not> m_fileChangeDelayTimer w \<and> pendingChecks w = 0)"

definition draining :: "FileWatcherPrivate \<Rightarrow> bool" where
  "draining w = (m_fileIgnoreDelayTimer w \<and> \<not> m_fileChangeDelayTimer w \<and> pendingChecks w = 0)"

text \<open>
  The events that can follow a change of the file of a path to the content with digest
  \<open>c\<close>: every event but a registration of that path again and a result for it other
  than \<open>c\<close>.  \<open>settled\<close>: the digest \<open>c\<close> is stored and no notification is pending.
\<close>

fun afterChange :: "QString \<Rightarrow> QByteArray \<Rightarrow> event \<Rightarrow> bool" where
  "afterChange p c (AddPath fs q i k) = (q \<noteq> p)"
| "afterChange p c (ChecksumResult q x) = (q \<noteq> p \<or> x = c)"
| "afterChange p c e = True"

definition settled :: "QByteArray \<Rightarrow> FileWatcherPrivate \<Rightarrow> bool" where
  "settled c w = (\<not> m_fileChangeDelayTimer w \<and> m_fileChecksum w = c)"

section \<open>Basic facts\<close>

lemmas watch_defs =
  FileWatcher_addPath_def FileWatcher_removePath_def FileWatcher_pause_def
  FileWatcher_resume_def FileWatcher_checkFileChanged_def onWatch_def
  FileWatcher_new_def FileWatcherPrivate_new_def QFileSystemWatcher_addPath_def
  start_def stop_def pause_def resume_def checkFileChanged_def shouldIgnoreChanges_def
  checksumCallback_def deliverChecksum_def fileChangeDelayTimeout_def
  fileIgnoreDelayTimeout_def fileChecksumTimeout_def calculateChecksum_def int_wrap_def

lemmas step_defs =
  FileWatcher_addPath_def FileWatcher_removePath_def FileWatcher_pause_def
  FileWatcher_resume_def FileWatcher_checkFileChanged_def onWatch_def

lemmas member_defs =
  pause_def resume_def checkFileChanged_def shouldIgnoreChanges_def
  checksumCallback_def deliverChecksum_def fileChangeDelayTimeout_def
  fileIgnoreDelayTimeout_def fileChecksumTimeout_def

lemma run_append:
  "run sha256 (xs @ ys) r =
     (fst (run sha256 xs r) @ fst (run sha256 ys (snd (run sha256 xs r))),
      snd (run sha256 ys (snd (run sha256 xs r))))"
  by (induction xs arbitrary: r) (simp_all add: split_beta Let_def)

lemma start_path: "m_filePath (start sha256 fs path i k w) = path"
  by (simp add: start_def Let_def)

lemma watch_path_simps:
  "m_filePath (pause w) = m_filePath w"
  "m_filePath (resume w) = m_filePath w"
  "m_filePath (checkFileChanged w) = m_filePath w"
  "m_filePath (fileChecksumTimeout w) = m_filePath w"
  "m_filePath (deliverChecksum c w) = m_filePath w"
  "m_filePath (snd (fileChangeDelayTimeout w)) = m_filePath w"
  "m_filePath (fileIgnoreDelayTimeout w) = m_filePath w"
  by (simp_all add: pause_def resume_def checkFileChanged_def fileChecksumTimeout_def
      deliverChecksum_def checksumCallback_def fileChangeDelayTimeout_def
      fileIgnoreDelayTimeout_def Let_def)

lemma step_keeps_paths:
  assumes "\<forall>q v. m_watches r q = Some v \<longrightarrow> m_filePath v = q"
    and "m_watches (snd (step sha256 e r)) p = Some w"
  shows "m_filePath w = p"
  using assms
  by (cases e)
    (auto simp: FileWatcher_addPath_def FileWatcher_removePath_def FileWatcher_pause_def
      FileWatcher_resume_def FileWatcher_checkFileChanged_def onWatch_def start_path
      watch_path_simps Let_def
      split: option.splits if_splits)

lemma run_keeps_paths:
  assumes "\<forall>q v. m_watches r q = Some v \<longrightarrow> m_filePath v = q"
    and "m_watches (snd (run sha256 es r)) p = Some w"
  shows "m_filePath w = p"
  using assms
proof (induction es arbitrary: r)
  case Nil
  then show ?case by simp
next
  case (Cons e es)
  have "\<forall>q v. m_watches (snd (step sha256 e r)) q = Some v \<longrightarrow> m_filePath v = q"
    using step_keeps_paths [OF Cons.prems(1)] by blast
  moreover have "m_watches (snd (run sha256 es (snd (step sha256 e r)))) p = Some w"
    using Cons.prems(2) by (simp add: split_beta)
  ultimately show ?case by (rule Cons.IH)
qed

lemma reachable_paths:
  assumes "m_watches (snd (run sha256 es FileWatcher_new)) p = Some w"
  shows "m_filePath w = p"
proof (rule run_keeps_paths [OF _ assms])
  show "\<forall>q v. m_watches FileWatcher_new q = Some v \<longrightarrow> m_filePath v = q"
    by (simp add: FileWatcher_new_def)
qed

lemma int_wrap_id: "- 2147483648 \<le> x \<Longrightarrow> x < 2147483648 \<Longrightarrow> int_wrap x = x"
  by (simp add: int_wrap_def)

lemma start_size: "m_fileChecksumSizeBytes (start sha256 fs path i k w) = int_wrap (k * 1024)"
  by (simp add: start_def Let_def)

lemma step_watch: "m_watches (snd (step sha256 e r)) p = stepWatch sha256 p e (m_watches r p)"
  by (cases e) (simp_all add: step_defs Let_def split: option.splits)

lemma guarded_ops:
  assumes "guarded w"
  shows "guarded (pause w)" "guarded (checkFileChanged w)" "guarded (fileChecksumTimeout w)"
    "guarded (deliverChecksum c w)" "guarded (snd (fileChangeDelayTimeout w))"
    "guarded (fileIgnoreDelayTimeout w)"
  using assms by (auto simp: guarded_def member_defs Let_def)

lemma paused_ops:
  assumes "paused w"
  shows "paused (pause w)" "paused (checkFileChanged w)" "paused (fileChecksumTimeout w)"
    "paused (deliverChecksum c w)" "paused (snd (fileChangeDelayTimeout w))"
    "paused (fileIgnoreDelayTimeout w)"
  using assms by (auto simp: paused_def member_defs Let_def)

lemma draining_ops:
  assumes "draining w"
  shows "draining (pause w)" "draining (resume w)" "draining (checkFileChanged w)"
    "draining (fileChecksumTimeout w)" "draining (deliverChecksum c w)"
    "draining (snd (fileChangeDelayTimeout w))"
  using assms by (auto simp: draining_def member_defs Let_def)

lemma paused_resume: "paused w \<Longrightarrow> draining (resume w)"
  by (simp add: paused_def draining_def resume_def Let_def)

lemma idle_pause: "pendingChecks w = 0 \<Longrightarrow> paused (pause w)"
  by (simp add: paused_def pause_def)

lemma step_guarded:
  assumes "keepsFlag p e" and "\<forall>w. m_watches r p = Some w \<longrightarrow> guarded w"
  shows "\<forall>w. m_watches (snd (step sha256 e r)) p = Some w \<longrightarrow> guarded w"
  using assms unfolding step_watch
  by (cases e; cases "m_watches r p") (auto simp: guarded_ops)

lemma step_paused:
  assumes "keepsFlag p e" and "\<forall>w. m_watches r p = Some w \<longrightarrow> paused w"
  shows "\<forall>w. m_watches (snd (step sha256 e r)) p = Some w \<longrightarrow> paused w"
  using assms unfolding step_watch
  by (cases e; cases "m_watches r p") (auto simp: paused_ops)

lemma step_draining:
  assumes "insideIgnoreWindow p e" and "\<forall>w. m_watches r p = Some w \<longrightarrow> draining w"
  shows "\<forall>w. m_watches (snd (step sha256 e r)) p = Some w \<longrightarrow> draining w"
  using assms unfolding step_watch
  by (cases e; cases "m_watches r p") (auto simp: draining_ops)

lemma step_emits:
  "fst (step sha256 e r) =
     (case e of
        ChangeDelayTimeout q \<Rightarrow>
          (case m_watches r q of
             Some w \<Rightarrow> if m_fileChangeDelayTimer w then [m_filePath w] else []
           | None \<Rightarrow> [])
      | _ \<Rightarrow> [])"
  by (cases e) (simp_all add: onWatch_def fileChangeDelayTimeout_def split: option.splits)

lemma step_silent:
  assumes "\<forall>q v. m_watches r q = Some v \<longrightarrow> m_filePath v = q"
    and "\<forall>w. m_watches r p = Some w \<longrightarrow> \<not> m_fileChangeDelayTimer w"
  shows "p \<notin> set (fst (step sha256 e r))"
  unfolding step_emits
proof (cases e)
  case (ChangeDelayTimeout q)
  show "p \<notin> set (case e of
        ChangeDelayTimeout q \<Rightarrow>
          (case m_watches r q of
             Some w \<Rightarrow> if m_fileChangeDelayTimer w then [m_filePath w] else []
           | None \<Rightarrow> [])
      | _ \<Rightarrow> [])"
  proof (cases "m_watches r q")
    case None
    with ChangeDelayTimeout show ?thesis by simp
  next
    case (Some w)
    with assms have "m_filePath w = q" and "q = p \<longrightarrow> \<not> m_fileChangeDelayTimer w"
      by auto
    with ChangeDelayTimeout Some show ?thesis by auto
  qed
qed simp_all

lemma settled_ops:
  assumes "settled c w"
  shows "settled c (pause w)" "settled c (resume w)" "settled c (checkFileChanged w)"
    "settled c (fileChecksumTimeout w)" "settled c (deliverChecksum c w)"
    "settled c (snd (fileChangeDelayTimeout w))" "settled c (fileIgnoreDelayTimeout w)"
  using assms by (auto simp: settled_def member_defs Let_def)

lemma step_settled:
  assumes "afterChange p c e" and "\<forall>w. m_watches r p = Some w \<longrightarrow> settled c w"
  shows "\<forall>w. m_watches (snd (step sha256 e r)) p = Some w \<longrightarrow> settled c w"
  using assms unfolding step_watch
  by (cases e; cases "m_watches r p") (auto simp: settled_ops)

lemma run_guarded:
  assumes "\<forall>e\<in>set es. keepsFlag p e" and "\<forall>w. m_watches r p = Some w \<longrightarrow> guarded w"
  shows "\<forall>w. m_watches (snd (run sha256 es r)) p = Some w \<longrightarrow> guarded w"
  using assms
proof (induction es arbitrary: r)
  case Nil
  then show ?case by simp
next
  case (Cons e es)
  have "\<forall>w. m_watches (snd (step sha256 e r)) p = Some w \<longrightarrow> guarded w"
    using Cons.prems by (intro step_guarded) auto
  with Cons.IH [of "snd (step sha256 e r)"] Cons.prems(1) show ?case
    by (simp add: split_beta)
qed

lemma run_silent:
  assumes "\<forall>q v. m_watches r q = Some v \<longrightarrow> m_filePath v = q"
    and "\<forall>w. m_watches r p = Some w \<longrightarrow> Q w"
    and "\<forall>e\<in>set es. A e"
    and step: "\<And>e r. A e \<Longrightarrow> \<forall>w. m_watches r p = Some w \<longrightarrow> Q w
                 \<Longrightarrow> \<forall>w. m_watches (snd (step sha256 e r)) p = Some w \<longrightarrow> Q w"
    and quiet: "\<And>w. Q w \<Longrightarrow> \<not> m_fileChangeDelayTimer w"
  shows "p \<notin> set (fst (run sha256 es r))
         \<and> (\<forall>w. m_watches (snd (run sha256 es r)) p = Some w \<longrightarrow> Q w)"
  using assms(1,2,3)
proof (induction es arbitrary: r)
  case Nil
  then show ?case by simp
next
  case (Cons e es)
  let ?r = "snd (step sha256 e r)"
  have paths: "\<forall>q v. m_watches ?r q = Some v \<longrightarrow> m_filePath v = q"
    using step_keeps_paths [OF Cons.prems(1)] by blast
  have inv: "\<forall>w. m_watches ?r p = Some w \<longrightarrow> Q w"
    using Cons.prems(2,3) by (intro step) auto
  have now: "p \<notin> set (fst (step sha256 e r))"
    using Cons.prems(1,2) quiet by (intro step_silent) auto
  have "\<forall>e\<in>set es. A e"
    using Cons.prems(3) by simp
  from Cons.IH [OF paths inv this] now show ?case
    by (simp add: split_beta)
qed

lemma change_event_dropped:
  assumes "m_watches r p = Some w" and "shouldIgnoreChanges w"
    and "e = OsEvent p \<or> e = ChecksumTimeout p"
  shows "step sha256 e r = ([], r)"
  using assms
  by (auto simp: FileWatcher_checkFileChanged_def onWatch_def fileChecksumTimeout_def
      checkFileChanged_def map_upd_triv)

lemma change_events_dropped:
  assumes "m_watches r p = Some w" and "shouldIgnoreChanges w"
    and "set es \<subseteq> {OsEvent p, ChecksumTimeout p}"
  shows "run sha256 es r = ([], r)"
  using assms(3)
proof (induction es)
  case Nil
  then show ?case by simp
next
  case (Cons e es)
  then have "step sha256 e r = ([], r)"
    using change_event_dropped [OF assms(1,2)] by auto
  with Cons show ?case by simp
qed

lemma change_event_no_debounce:
  assumes "m_watches r p = Some w" and "\<not> m_fileChangeDelayTimer w"
    and "e = OsEvent p \<or> e = ChecksumTimeout p"
  shows "fst (step sha256 e r) = []
         \<and> (\<exists>v. m_watches (snd (step sha256 e r)) p = Some v \<and> \<not> m_fileChangeDelayTimer v)"
  using assms
  by (auto simp: FileWatcher_checkFileChanged_def onWatch_def fileChecksumTimeout_def
      checkFileChanged_def)

lemma change_events_no_debounce:
  assumes "m_watches r p = Some w" and "\<not> m_fileChangeDelayTimer w"
    and "set es \<subseteq> {OsEvent p, ChecksumTimeout p}"
  shows "fst (run sha256 es r) = []
         \<and> (\<exists>v. m_watches (snd (run sha256 es r)) p = Some v \<and> \<not> m_fileChangeDelayTimer v)"
  using assms
proof (induction es arbitrary: r w)
  case Nil
  then show ?case by simp
next
  case (Cons e es)
  have e: "e = OsEvent p \<or> e = ChecksumTimeout p"
    using Cons.prems(3) by auto
  obtain v where v: "fst (step sha256 e r) = []" "m_watches (snd (step sha256 e r)) p = Some v"
    "\<not> m_fileChangeDelayTimer v"
    using change_event_no_debounce [OF Cons.prems(1,2) e] by blast
  have "set es \<subseteq> {OsEvent p, ChecksumTimeout p}"
    using Cons.prems(3) by auto
  from Cons.IH [OF v(2,3) this] v(1) show ?case
    by (simp add: split_beta)
qed

section \<open>The debounce window\<close>

text \<open>
  Claim C1: in a registry reached from the empty one, while the debounce timer of a watched
  path is pending, any sequence of change events for that path (from the backend or from the
  periodic timer) emits nothing; the timeout that ends the window emits the path exactly
  once; and no further change event or timeout of that timer emits it again.
\<close>

theorem one_notification_per_debounce_window:
  assumes "r = snd (run sha256 es0 FileWatcher_new)"
    and "m_watches r p = Some w" and "m_fileChangeDelayTimer w"
    and "set es \<subseteq> {OsEvent p, ChecksumTimeout p}"
    and "set es' \<subseteq> {OsEvent p, ChecksumTimeout p}"
  shows "fst (run sha256 es r) = []
         \<and> fst (run sha256 (es @ [ChangeDelayTimeout p]) r) = [p]
         \<and> fst (run sha256 (es @ [ChangeDelayTimeout p] @ es' @ [ChangeDelayTimeout p]) r) = [p]"
proof -
  have path: "m_filePath w = p"
    using assms(1,2) reachable_paths by blast
  have gate: "shouldIgnoreChanges w"
    using assms(3) by (simp add: shouldIgnoreChanges_def)
  have window: "run sha256 es r = ([], r)"
    by (rule change_events_dropped [OF assms(2) gate assms(4)])
  define r1 where "r1 = r\<lparr>m_watches := (m_watches r)(p \<mapsto> w\<lparr>m_fileChangeDelayTimer := False\<rparr>)\<rparr>"
  have fire: "step sha256 (ChangeDelayTimeout p) r = ([p], r1)"
    using assms(2,3) path by (simp add: onWatch_def fileChangeDelayTimeout_def r1_def)
  have w1: "m_watches r1 p = Some (w\<lparr>m_fileChangeDelayTimer := False\<rparr>)"
    "\<not> m_fileChangeDelayTimer (w\<lparr>m_fileChangeDelayTimer := False\<rparr>)"
    by (simp_all add: r1_def)
  obtain v where v: "fst (run sha256 es' r1) = []"
    "m_watches (snd (run sha256 es' r1)) p = Some v" "\<not> m_fileChangeDelayTimer v"
    using change_events_no_debounce [OF w1 assms(5)] by blast
  have again: "fst (step sha256 (ChangeDelayTimeout p) (snd (run sha256 es' r1))) = []"
    using v(2,3) by (simp add: onWatch_def fileChangeDelayTimeout_def)
  show ?thesis
    using window fire v(1) again by (simp add: run_append split_beta)
qed

theorem one_notification_per_debounce_window_witness:
  "m_watches (snd (run id [AddPath [''/tmp/a.txt'' \<mapsto> ''A''] ''/tmp/a.txt'' 0 (- 1),
                            OsEvent ''/tmp/a.txt'', ChecksumResult ''/tmp/a.txt'' ''B'']
                     FileWatcher_new)) ''/tmp/a.txt''
     = Some \<lparr>m_filePath = ''/tmp/a.txt'', m_fileChecksum = ''B'', m_fileChangeDelayTimer = True,
             m_fileIgnoreDelayTimer = False, m_fileChecksumTimer = None,
             m_fileChecksumSizeBytes = - 1024, m_ignoreFileChange = False, pendingChecks = 0\<rparr>
   \<and> fst (run id ([OsEvent ''/tmp/a.txt'', OsEvent ''/tmp/a.txt'', ChecksumTimeout ''/tmp/a.txt'']
                   @ [ChangeDelayTimeout ''/tmp/a.txt''])
            (snd (run id [AddPath [''/tmp/a.txt'' \<mapsto> ''A''] ''/tmp/a.txt'' 0 (- 1),
                          OsEvent ''/tmp/a.txt'', ChecksumResult ''/tmp/a.txt'' ''B'']
                   FileWatcher_new)))
     = [''/tmp/a.txt'']
   \<and> fst (run id ([OsEvent ''/tmp/a.txt'', OsEvent ''/tmp/a.txt'', ChecksumTimeout ''/tmp/a.txt'']
                   @ [ChangeDelayTimeout ''/tmp/a.txt''] @ [OsEvent ''/tmp/a.txt'']
                   @ [ChangeDelayTimeout ''/tmp/a.txt''])
            (snd (run id [AddPath [''/tmp/a.txt'' \<mapsto> ''A''] ''/tmp/a.txt'' 0 (- 1),
                          OsEvent ''/tmp/a.txt'', ChecksumResult ''/tmp/a.txt'' ''B'']
                   FileWatcher_new)))
     = [''/tmp/a.txt'']"
proof -
  let ?r = "snd (run id [AddPath [''/tmp/a.txt'' \<mapsto> ''A''] ''/tmp/a.txt'' 0 (- 1),
                         OsEvent ''/tmp/a.txt'', ChecksumResult ''/tmp/a.txt'' ''B'']
                  FileWatcher_new)"
  let ?w = "\<lparr>m_filePath = ''/tmp/a.txt'', m_fileChecksum = ''B'', m_fileChangeDelayTimer = True,
             m_fileIgnoreDelayTimer = False, m_fileChecksumTimer = None,
             m_fileChecksumSizeBytes = - 1024, m_ignoreFileChange = False, pendingChecks = 0\<rparr>"
  have h1: "m_watches ?r ''/tmp/a.txt'' = Some ?w"
    by (simp add: watch_defs)
  have h2: "m_fileChangeDelayTimer ?w"
    by simp
  have h3: "set [OsEvent ''/tmp/a.txt'', OsEvent ''/tmp/a.txt'', ChecksumTimeout ''/tmp/a.txt'']
            \<subseteq> {OsEvent ''/tmp/a.txt'', ChecksumTimeout ''/tmp/a.txt''}"
    by simp
  have h4: "set [OsEvent ''/tmp/a.txt''] \<subseteq> {OsEvent ''/tmp/a.txt'', ChecksumTimeout ''/tmp/a.txt''}"
    by simp
  show ?thesis
    using h1 one_notification_per_debounce_window [OF refl h1 h2 h3 h4] by blast
qed

section \<open>Checks in flight\<close>

text \<open>
  Claim C2 does not hold of the code: a check is dispatched, then \<^verbatim>\<open>pause()\<close> and
  \<^verbatim>\<open>resume()\<close> (or a registration of the same path again) clear the flag that guards
  it, and after the ignore window the next change event passes the gate and dispatches a
  second check while the first is still in flight.
\<close>

theorem second_check_in_flight_after_resume:
  "\<forall>sha256.
     map_option pendingChecks
       (m_watches (snd (run sha256
           [AddPath [''/tmp/a.txt'' \<mapsto> ''A''] ''/tmp/a.txt'' 0 (- 1), OsEvent ''/tmp/a.txt'',
            Pause, Resume, IgnoreDelayTimeout ''/tmp/a.txt'', OsEvent ''/tmp/a.txt'']
           FileWatcher_new)) ''/tmp/a.txt'')
     = Some 2
   \<and> map_option pendingChecks
       (m_watches (snd (run sha256
           [AddPath [''/tmp/a.txt'' \<mapsto> ''A''] ''/tmp/a.txt'' 0 (- 1), OsEvent ''/tmp/a.txt'',
            AddPath [''/tmp/a.txt'' \<mapsto> ''A''] ''/tmp/a.txt'' 0 (- 1), OsEvent ''/tmp/a.txt'']
           FileWatcher_new)) ''/tmp/a.txt'')
     = Some 2"
  by (simp add: watch_defs)

section \<open>Pausing\<close>

text \<open>
  Claim C3 does not hold of the code: when a check is in flight at the time of
  \<^verbatim>\<open>pause()\<close> and completes with a digest that differs from the stored one, the
  callback starts the debounce timer and clears the flag, and the timeout emits the path
  although \<^verbatim>\<open>resume()\<close> has not been called.
\<close>

theorem notification_fires_while_paused:
  assumes "fs p = Some a" and "c \<noteq> sha256 a" and "p \<noteq> []"
  shows "fst (run sha256 [AddPath fs p 0 (- 1), OsEvent p, Pause, ChecksumResult p c] FileWatcher_new) = []
       \<and> fst (run sha256 [AddPath fs p 0 (- 1), OsEvent p, Pause, ChecksumResult p c,
                            ChangeDelayTimeout p] FileWatcher_new) = [p]"
  using assms by (simp add: watch_defs)

theorem notification_fires_while_paused_witness:
  "[''/tmp/a.txt'' \<mapsto> ''A''] ''/tmp/a.txt'' = Some ''A'' \<and> ''B'' \<noteq> id ''A''
   \<and> fst (run id [AddPath [''/tmp/a.txt'' \<mapsto> ''A''] ''/tmp/a.txt'' 0 (- 1), OsEvent ''/tmp/a.txt'',
                   Pause, ChecksumResult ''/tmp/a.txt'' ''B'', ChangeDelayTimeout ''/tmp/a.txt'']
            FileWatcher_new) = [''/tmp/a.txt'']"
  using notification_fires_while_paused [of "[''/tmp/a.txt'' \<mapsto> ''A'']" "''/tmp/a.txt''" "''A''" "''B''" id]
  by simp

section \<open>A file that cannot be opened\<close>




section \<open>Completion of a checksum\<close>

text \<open>
  Claim C5: when the asynchronous checksum completes, a digest that differs from the stored
  one is stored and the debounce timer is started, so that its timeout emits the path; an
  equal digest leaves the stored digest and the debounce timer as they were; in both cases
  the reentrancy guard is cleared.
\<close>

theorem checksum_completion:
  "(c \<noteq> m_fileChecksum w \<longrightarrow>
      m_fileChecksum (checksumCallback c w) = c
      \<and> m_fileChangeDelayTimer (checksumCallback c w)
      \<and> fst (fileChangeDelayTimeout (checksumCallback c w)) = [m_filePath w])
   \<and> (c = m_fileChecksum w \<longrightarrow>
      m_fileChecksum (checksumCallback c w) = m_fileChecksum w
      \<and> m_fileChangeDelayTimer (checksumCallback c w) = m_fileChangeDelayTimer w)
   \<and> \<not> m_ignoreFileChange (checksumCallback c w)"
  by (simp add: checksumCallback_def fileChangeDelayTimeout_def)

theorem checksum_completion_witness:
  "''B'' \<noteq> m_fileChecksum (FileWatcherPrivate_new\<lparr>m_fileChecksum := ''A''\<rparr>)
   \<and> m_fileChecksum (checksumCallback ''B'' (FileWatcherPrivate_new\<lparr>m_fileChecksum := ''A''\<rparr>)) = ''B''
   \<and> m_fileChangeDelayTimer (checksumCallback ''B'' (FileWatcherPrivate_new\<lparr>m_fileChecksum := ''A''\<rparr>))
   \<and> ''A'' = m_fileChecksum (FileWatcherPrivate_new\<lparr>m_fileChecksum := ''A''\<rparr>)
   \<and> m_fileChecksum (checksumCallback ''A'' (FileWatcherPrivate_new\<lparr>m_fileChecksum := ''A''\<rparr>)) = ''A''
   \<and> \<not> m_fileChangeDelayTimer (checksumCallback ''A'' (FileWatcherPrivate_new\<lparr>m_fileChecksum := ''A''\<rparr>))"
  using checksum_completion [of "''B''" "FileWatcherPrivate_new\<lparr>m_fileChecksum := ''A''\<rparr>"]
    checksum_completion [of "''A''" "FileWatcherPrivate_new\<lparr>m_fileChecksum := ''A''\<rparr>"]
  by (simp add: FileWatcherPrivate_new_def)

section \<open>The size limit of the checksum\<close>

text \<open>
  Claim C6 does not hold of the code when the product of the limit with 1024 leaves the
  range of \<^verbatim>\<open>int\<close> (line 70): a limit of 4194305 KiB is stored as 1024 bytes, so a change
  of the byte at offset 1024, within the first \<open>4194305 * 1024\<close> bytes, leaves the checksum
  as it was, whatever the hash function; and the limit -4194303, not positive, is stored as
  1024 bytes too, so only the first 1024 bytes of the file are hashed.
\<close>

theorem checksum_limit_overflow:
  "\<forall>sha256.
     m_fileChecksumSizeBytes (start sha256 Map.empty ''/tmp/a.txt'' 0 4194305 FileWatcherPrivate_new) = 1024
   \<and> replicate 1024 CHR ''a'' @ ''x'' \<noteq> replicate 1024 CHR ''a'' @ ''y''
   \<and> calculateChecksum sha256 [''/tmp/a.txt'' \<mapsto> replicate 1024 CHR ''a'' @ ''x'']
        (start sha256 Map.empty ''/tmp/a.txt'' 0 4194305 FileWatcherPrivate_new)
     = calculateChecksum sha256 [''/tmp/a.txt'' \<mapsto> replicate 1024 CHR ''a'' @ ''y'']
        (start sha256 Map.empty ''/tmp/a.txt'' 0 4194305 FileWatcherPrivate_new)
   \<and> m_fileChecksumSizeBytes (start sha256 Map.empty ''/tmp/a.txt'' 0 (- 4194303) FileWatcherPrivate_new) = 1024
   \<and> calculateChecksum sha256 [''/tmp/a.txt'' \<mapsto> replicate 1024 CHR ''a'' @ ''x'']
        (start sha256 Map.empty ''/tmp/a.txt'' 0 (- 4194303) FileWatcherPrivate_new)
     = sha256 (replicate 1024 CHR ''a'')"
  by (simp add: calculateChecksum_def start_path start_size int_wrap_def)

section \<open>Paths the registry does not track\<close>

text \<open>
  Claim C7: for a path that is not tracked, \<^verbatim>\<open>hasSameFileChecksum\<close> is false, an event of
  the backend for it changes nothing and emits nothing, and \<^verbatim>\<open>removePath\<close> changes
  nothing; in particular an event that arrives after \<^verbatim>\<open>removePath\<close> of its path is dropped.
\<close>

theorem untracked_path_is_ignored:
  assumes "m_watches r p = None"
  shows "FileWatcher_hasSameFileChecksum sha256 fs p r = False
         \<and> FileWatcher_checkFileChanged p r = r
         \<and> step sha256 (OsEvent p) r = ([], r)
         \<and> FileWatcher_removePath p r = r
         \<and> step sha256 (OsEvent p) (FileWatcher_removePath p r0) = ([], FileWatcher_removePath p r0)"
  using assms
  by (simp add: FileWatcher_hasSameFileChecksum_def FileWatcher_checkFileChanged_def
      FileWatcher_removePath_def)

theorem untracked_path_is_ignored_witness:
  "m_watches FileWatcher_new ''/tmp/a.txt'' = None
   \<and> FileWatcher_hasSameFileChecksum id [''/tmp/a.txt'' \<mapsto> ''A''] ''/tmp/a.txt'' FileWatcher_new = False
   \<and> step id (OsEvent ''/tmp/a.txt'') FileWatcher_new = ([], FileWatcher_new)
   \<and> FileWatcher_removePath ''/tmp/a.txt'' FileWatcher_new = FileWatcher_new
   \<and> step id (OsEvent ''/tmp/a.txt'')
        (FileWatcher_removePath ''/tmp/a.txt''
          (FileWatcher_addPath id [''/tmp/a.txt'' \<mapsto> ''A''] ''/tmp/a.txt'' 0 (- 1) FileWatcher_new))
      = ([], FileWatcher_removePath ''/tmp/a.txt''
          (FileWatcher_addPath id [''/tmp/a.txt'' \<mapsto> ''A''] ''/tmp/a.txt'' 0 (- 1) FileWatcher_new))"
proof -
  have h: "m_watches FileWatcher_new ''/tmp/a.txt'' = None"
    by (simp add: FileWatcher_new_def)
  show ?thesis
    using h untracked_path_is_ignored [OF h, of id "[''/tmp/a.txt'' \<mapsto> ''A'']"
        "FileWatcher_addPath id [''/tmp/a.txt'' \<mapsto> ''A''] ''/tmp/a.txt'' 0 (- 1) FileWatcher_new"]
    by simp
qed

section \<open>Registration when the subscription fails\<close>

text \<open>
  Claim C8, as the code has it: when the subscription of the backend fails during
  registration, \<^verbatim>\<open>addPath\<close> emits nothing (and returns nothing), tracks the path and
  starts its watch all the same, leaves the subscriptions of the backend as they were, and
  does not retry: a later \<^verbatim>\<open>addPath\<close> of the path, now tracked, does not subscribe.
\<close>

theorem addPath_subscription_failure_is_silent:
  assumes "fs path = None" and "m_watches r path = None"
  shows "fst (QFileSystemWatcher_addPath fs path (m_fileWatcher r)) = False
       \<and> fst (step sha256 (AddPath fs path i k) r) = []
       \<and> m_watches (FileWatcher_addPath sha256 fs path i k r) path
         = Some (start sha256 fs path i k FileWatcherPrivate_new)
       \<and> m_fileWatcher (FileWatcher_addPath sha256 fs path i k r) = m_fileWatcher r
       \<and> m_fileWatcher (FileWatcher_addPath sha256 fs' path i' k'
            (FileWatcher_addPath sha256 fs path i k r)) = m_fileWatcher r"
  using assms
  by (simp add: QFileSystemWatcher_addPath_def FileWatcher_addPath_def Let_def)

theorem addPath_subscription_failure_is_silent_witness:
  "Map.empty ''/tmp/a.txt'' = (None :: QByteArray option)
   \<and> m_watches FileWatcher_new ''/tmp/a.txt'' = None
   \<and> fst (step id (AddPath Map.empty ''/tmp/a.txt'' 0 (- 1)) FileWatcher_new) = []
   \<and> m_fileWatcher (FileWatcher_addPath id Map.empty ''/tmp/a.txt'' 0 (- 1) FileWatcher_new) = {}
   \<and> m_fileWatcher (FileWatcher_addPath id [''/tmp/a.txt'' \<mapsto> ''A''] ''/tmp/a.txt'' 0 (- 1)
        (FileWatcher_addPath id Map.empty ''/tmp/a.txt'' 0 (- 1) FileWatcher_new)) = {}"
proof -
  have h: "m_watches FileWatcher_new ''/tmp/a.txt'' = None"
    by (simp add: FileWatcher_new_def)
  have e: "m_fileWatcher FileWatcher_new = {}"
    by (simp add: FileWatcher_new_def)
  show ?thesis
    using h e addPath_subscription_failure_is_silent [of Map.empty "''/tmp/a.txt''" FileWatcher_new
        id 0 "- 1" "[''/tmp/a.txt'' \<mapsto> ''A'']" 0 "- 1"]
    by simp
qed

text \<open>
  The claim as written fails: for a file that does not exist the subscription fails, and
  the caller of \<^verbatim>\<open>addPath\<close> gets what it gets when the subscription succeeds, nothing,
  while the path is tracked without a subscription.
\<close>

theorem addPath_failure_not_surfaced:
  "fst (QFileSystemWatcher_addPath Map.empty ''/tmp/a.txt'' (m_fileWatcher FileWatcher_new)) = False
   \<and> fst (step id (AddPath Map.empty ''/tmp/a.txt'' 0 (- 1)) FileWatcher_new)
     = fst (step id (AddPath [''/tmp/a.txt'' \<mapsto> ''A''] ''/tmp/a.txt'' 0 (- 1)) FileWatcher_new)
   \<and> fst (step id (AddPath Map.empty ''/tmp/a.txt'' 0 (- 1)) FileWatcher_new) = []
   \<and> m_watches (snd (step id (AddPath Map.empty ''/tmp/a.txt'' 0 (- 1)) FileWatcher_new)) ''/tmp/a.txt''
     \<noteq> None
   \<and> ''/tmp/a.txt'' \<notin> m_fileWatcher (snd (step id (AddPath Map.empty ''/tmp/a.txt'' 0 (- 1)) FileWatcher_new))"
  by (simp add: watch_defs)

section \<open>Stopping a watch\<close>

text \<open>
  Claim C9, as the code has it: after \<^verbatim>\<open>stop()\<close>, from any state, the path is empty, the
  stored checksum is empty and the periodic checksum timer and the debounce timer are
  inactive; the ignore-window timer is not touched and stays as it was.
\<close>

theorem stop_clears_path_checksum_two_timers:
  "m_filePath (stop w) = [] \<and> m_fileChecksum (stop w) = []
   \<and> m_fileChecksumTimer (stop w) = None \<and> m_fileChangeDelayTimer (stop w) = False
   \<and> m_fileIgnoreDelayTimer (stop w) = m_fileIgnoreDelayTimer w"
  by (simp add: stop_def)

text \<open>
  The claim as written fails: a watch that was just resumed has its ignore-window timer
  active, and \<^verbatim>\<open>stop()\<close> leaves it active.
\<close>

theorem stop_leaves_ignore_timer_active:
  "m_fileIgnoreDelayTimer (stop (resume FileWatcherPrivate_new)) = True"
  by (simp add: stop_def resume_def FileWatcherPrivate_new_def)

section \<open>A watch with no path\<close>

text \<open>
  Claim C10: for a watch whose path is empty (the stopped state), a change event and a fire
  of the periodic timer are no-ops: no checksum is dispatched (\<open>pendingChecks\<close> is as
  before), no field changes, and the registry emits nothing when it forwards the event.
\<close>

theorem stopped_watch_drops_events:
  assumes "m_filePath w = []"
  shows "checkFileChanged w = w \<and> fileChecksumTimeout w = w
         \<and> pendingChecks (checkFileChanged w) = pendingChecks w
         \<and> (m_watches r p = Some w \<longrightarrow>
              step sha256 (OsEvent p) r = ([], r) \<and> step sha256 (ChecksumTimeout p) r = ([], r))"
  using assms
  by (auto simp: checkFileChanged_def fileChecksumTimeout_def shouldIgnoreChanges_def
      FileWatcher_checkFileChanged_def onWatch_def map_upd_triv)

theorem stopped_watch_drops_events_witness:
  "m_filePath (start id Map.empty [] 0 (- 1) FileWatcherPrivate_new) = []
   \<and> m_watches (FileWatcher_addPath id Map.empty [] 0 (- 1) FileWatcher_new) []
       = Some (start id Map.empty [] 0 (- 1) FileWatcherPrivate_new)
   \<and> checkFileChanged (start id Map.empty [] 0 (- 1) FileWatcherPrivate_new)
       = start id Map.empty [] 0 (- 1) FileWatcherPrivate_new
   \<and> step id (OsEvent []) (FileWatcher_addPath id Map.empty [] 0 (- 1) FileWatcher_new)
       = ([], FileWatcher_addPath id Map.empty [] 0 (- 1) FileWatcher_new)
   \<and> step id (ChecksumTimeout []) (FileWatcher_addPath id Map.empty [] 0 (- 1) FileWatcher_new)
       = ([], FileWatcher_addPath id Map.empty [] 0 (- 1) FileWatcher_new)"
proof -
  have h: "m_filePath (start id Map.empty [] 0 (- 1) FileWatcherPrivate_new) = []"
    by (simp add: start_path)
  have t: "m_watches (FileWatcher_addPath id Map.empty [] 0 (- 1) FileWatcher_new) []
       = Some (start id Map.empty [] 0 (- 1) FileWatcherPrivate_new)"
    by (simp add: FileWatcher_addPath_def FileWatcher_new_def)
  show ?thesis
    using h t stopped_watch_drops_events [OF h,
        of "FileWatcher_addPath id Map.empty [] 0 (- 1) FileWatcher_new" "[]" id]
    by blast
qed

section \<open>What the flag does guarantee\<close>

text \<open>
  As long as neither \<^verbatim>\<open>resume()\<close> is called nor the path registered again, at most one
  check is in flight for a path that had none in flight.
\<close>

theorem single_check_in_flight_without_resume:
  assumes "\<forall>w. m_watches r p = Some w \<longrightarrow> pendingChecks w = 0"
    and "\<forall>e\<in>set es. keepsFlag p e"
    and "m_watches (snd (run sha256 es r)) p = Some v"
  shows "pendingChecks v \<le> 1"
proof -
  have "\<forall>w. m_watches r p = Some w \<longrightarrow> guarded w"
    using assms(1) by (simp add: guarded_def)
  from run_guarded [OF assms(2) this] assms(3) have "guarded v"
    by blast
  then show ?thesis
    by (auto simp: guarded_def)
qed

theorem single_check_in_flight_without_resume_witness:
  "m_watches (snd (run id [OsEvent ''/tmp/a.txt'', OsEvent ''/tmp/a.txt'', Pause,
                            ChecksumTimeout ''/tmp/a.txt'']
                     (FileWatcher_addPath id [''/tmp/a.txt'' \<mapsto> ''A''] ''/tmp/a.txt'' 30 1
                        FileWatcher_new))) ''/tmp/a.txt''
     = Some \<lparr>m_filePath = ''/tmp/a.txt'', m_fileChecksum = ''A'', m_fileChangeDelayTimer = False,
             m_fileIgnoreDelayTimer = False, m_fileChecksumTimer = Some 30000,
             m_fileChecksumSizeBytes = 1024, m_ignoreFileChange = True, pendingChecks = 1\<rparr>
   \<and> pendingChecks \<lparr>m_filePath = ''/tmp/a.txt'', m_fileChecksum = ''A'', m_fileChangeDelayTimer = False,
             m_fileIgnoreDelayTimer = False, m_fileChecksumTimer = Some 30000,
             m_fileChecksumSizeBytes = 1024, m_ignoreFileChange = True, pendingChecks = 1\<rparr> \<le> 1"
proof -
  let ?r = "FileWatcher_addPath id [''/tmp/a.txt'' \<mapsto> ''A''] ''/tmp/a.txt'' 30 1 FileWatcher_new"
  let ?es = "[OsEvent ''/tmp/a.txt'', OsEvent ''/tmp/a.txt'', Pause, ChecksumTimeout ''/tmp/a.txt'']"
  have h1: "\<forall>w. m_watches ?r ''/tmp/a.txt'' = Some w \<longrightarrow> pendingChecks w = 0"
    by (simp add: watch_defs)
  have h2: "\<forall>e\<in>set ?es. keepsFlag ''/tmp/a.txt'' e"
    by simp
  have h3: "m_watches (snd (run id ?es ?r)) ''/tmp/a.txt''
     = Some \<lparr>m_filePath = ''/tmp/a.txt'', m_fileChecksum = ''A'', m_fileChangeDelayTimer = False,
             m_fileIgnoreDelayTimer = False, m_fileChecksumTimer = Some 30000,
             m_fileChecksumSizeBytes = 1024, m_ignoreFileChange = True, pendingChecks = 1\<rparr>"
    by (simp add: watch_defs)
  show ?thesis
    using h3 single_check_in_flight_without_resume [OF h1 h2 h3] by blast
qed

text \<open>
  In a registry reached from the empty one, for a path with no check in flight when
  \<^verbatim>\<open>pause()\<close> is called: the path is not emitted before \<^verbatim>\<open>resume()\<close>, whatever
  events arrive, nor after \<^verbatim>\<open>resume()\<close> until the ignore window has elapsed.
\<close>

theorem pause_silences_watch_without_check_in_flight:
  assumes "r = snd (run sha256 es0 FileWatcher_new)"
    and "\<forall>w. m_watches r p = Some w \<longrightarrow> pendingChecks w = 0"
    and "\<forall>e\<in>set es1. keepsFlag p e"
    and "\<forall>e\<in>set es2. insideIgnoreWindow p e"
  shows "p \<notin> set (fst (run sha256 (Pause # es1 @ Resume # es2) r))"
proof -
  have paths0: "\<forall>q v. m_watches r q = Some v \<longrightarrow> m_filePath v = q"
    using assms(1) reachable_paths by blast
  let ?r1 = "snd (step sha256 Pause r)"
  have paths1: "\<forall>q v. m_watches ?r1 q = Some v \<longrightarrow> m_filePath v = q"
    using step_keeps_paths [OF paths0] by blast
  have inv1: "\<forall>w. m_watches ?r1 p = Some w \<longrightarrow> paused w"
    unfolding step_watch using assms(2) by (auto simp: idle_pause)
  have phase1: "p \<notin> set (fst (run sha256 es1 ?r1))
      \<and> (\<forall>w. m_watches (snd (run sha256 es1 ?r1)) p = Some w \<longrightarrow> paused w)"
  proof (rule run_silent [OF paths1 inv1 assms(3)])
    show "\<forall>w. m_watches (snd (step sha256 e r)) p = Some w \<longrightarrow> paused w"
      if "keepsFlag p e" and "\<forall>w. m_watches r p = Some w \<longrightarrow> paused w" for e r
      using that by (rule step_paused)
    show "\<not> m_fileChangeDelayTimer w" if "paused w" for w
      using that by (simp add: paused_def)
  qed
  let ?r2 = "snd (run sha256 es1 ?r1)"
  have paths2: "\<forall>q v. m_watches ?r2 q = Some v \<longrightarrow> m_filePath v = q"
    using run_keeps_paths [OF paths1] by blast
  let ?r3 = "snd (step sha256 Resume ?r2)"
  have paths3: "\<forall>q v. m_watches ?r3 q = Some v \<longrightarrow> m_filePath v = q"
    using step_keeps_paths [OF paths2] by blast
  have inv3: "\<forall>w. m_watches ?r3 p = Some w \<longrightarrow> draining w"
    unfolding step_watch using phase1 by (auto simp: paused_resume)
  have phase2: "p \<notin> set (fst (run sha256 es2 ?r3))
      \<and> (\<forall>w. m_watches (snd (run sha256 es2 ?r3)) p = Some w \<longrightarrow> draining w)"
  proof (rule run_silent [OF paths3 inv3 assms(4)])
    show "\<forall>w. m_watches (snd (step sha256 e r)) p = Some w \<longrightarrow> draining w"
      if "insideIgnoreWindow p e" and "\<forall>w. m_watches r p = Some w \<longrightarrow> draining w" for e r
      using that by (rule step_draining)
    show "\<not> m_fileChangeDelayTimer w" if "draining w" for w
      using that by (simp add: draining_def)
  qed
  show ?thesis
    using phase1 phase2 by (simp add: run_append split_beta)
qed

theorem pause_silences_watch_without_check_in_flight_witness:
  "''/tmp/a.txt'' \<notin> set (fst (run id
       (Pause # [OsEvent ''/tmp/a.txt'', ChecksumResult ''/tmp/a.txt'' ''B'',
                 ChangeDelayTimeout ''/tmp/a.txt'']
          @ Resume # [OsEvent ''/tmp/a.txt'', ChangeDelayTimeout ''/tmp/a.txt''])
       (snd (run id [AddPath [''/tmp/a.txt'' \<mapsto> ''A''] ''/tmp/a.txt'' 0 (- 1)] FileWatcher_new))))"
proof -
  let ?r = "snd (run id [AddPath [''/tmp/a.txt'' \<mapsto> ''A''] ''/tmp/a.txt'' 0 (- 1)] FileWatcher_new)"
  have h2: "\<forall>w. m_watches ?r ''/tmp/a.txt'' = Some w \<longrightarrow> pendingChecks w = 0"
    by (simp add: watch_defs)
  have h3: "\<forall>e\<in>set [OsEvent ''/tmp/a.txt'', ChecksumResult ''/tmp/a.txt'' ''B'',
                       ChangeDelayTimeout ''/tmp/a.txt'']. keepsFlag ''/tmp/a.txt'' e"
    by simp
  have h4: "\<forall>e\<in>set [OsEvent ''/tmp/a.txt'', ChangeDelayTimeout ''/tmp/a.txt''].
              insideIgnoreWindow ''/tmp/a.txt'' e"
    by simp
  show ?thesis
    by (rule pause_silences_watch_without_check_in_flight [OF refl h2 h3 h4])
qed

text \<open>
  One change of a file, one notification: in a registry reached from the empty one, for an
  idle watch whose file now has a digest other than the stored one, the first change event
  dispatches the check, and however many duplicate change events arrive before the result,
  between the result and the timeout, and afterwards (with any later results of the same
  digest, timeouts, \<^verbatim>\<open>pause()\<close> and \<^verbatim>\<open>resume()\<close>), the path is emitted exactly once.
\<close>

theorem one_notification_per_change:
  assumes "r = snd (run sha256 es0 FileWatcher_new)"
    and "m_watches r p = Some w"
    and "\<not> shouldIgnoreChanges w" and "pendingChecks w = 0"
    and "c \<noteq> m_fileChecksum w"
    and "set dups1 \<subseteq> {OsEvent p, ChecksumTimeout p}"
    and "set dups2 \<subseteq> {OsEvent p, ChecksumTimeout p}"
    and "\<forall>e\<in>set rest. afterChange p c e"
  shows "filter (\<lambda>q. q = p)
           (fst (run sha256 (OsEvent p # dups1 @ ChecksumResult p c # dups2
                               @ ChangeDelayTimeout p # rest) r)) = [p]"
proof -
  have paths: "\<forall>q v. m_watches r q = Some v \<longrightarrow> m_filePath v = q"
    using assms(1) reachable_paths by blast
  then have path: "m_filePath w = p"
    using assms(2) by blast
  define w1 where "w1 = checkFileChanged w"
  define w2 where "w2 = deliverChecksum c w1"
  define w3 where "w3 = snd (fileChangeDelayTimeout w2)"
  define r1 where "r1 = r\<lparr>m_watches := (m_watches r)(p \<mapsto> w1)\<rparr>"
  define r2 where "r2 = r\<lparr>m_watches := (m_watches r)(p \<mapsto> w2)\<rparr>"
  define r3 where "r3 = r\<lparr>m_watches := (m_watches r)(p \<mapsto> w3)\<rparr>"
  have w1: "shouldIgnoreChanges w1" "pendingChecks w1 \<noteq> 0" "m_fileChecksum w1 = m_fileChecksum w"
    using assms(3) by (simp_all add: w1_def checkFileChanged_def shouldIgnoreChanges_def)
  have w2: "m_fileChangeDelayTimer w2" "m_fileChecksum w2 = c" "m_filePath w2 = p"
    using w1(2,3) assms(5) path
    by (simp_all add: w2_def w1_def deliverChecksum_def checksumCallback_def checkFileChanged_def)
  have w3: "settled c w3" "m_filePath w3 = p"
    using w2 by (simp_all add: w3_def fileChangeDelayTimeout_def settled_def)
  have s1: "step sha256 (OsEvent p) r = ([], r1)"
    using assms(2) by (simp add: FileWatcher_checkFileChanged_def r1_def w1_def)
  have at1: "m_watches r1 p = Some w1"
    by (simp add: r1_def)
  have d1: "run sha256 dups1 r1 = ([], r1)"
    by (rule change_events_dropped [OF at1 w1(1) assms(6)])
  have s2: "step sha256 (ChecksumResult p c) r1 = ([], r2)"
    by (simp add: onWatch_def r1_def r2_def w2_def)
  have at2: "m_watches r2 p = Some w2" "shouldIgnoreChanges w2"
    using w2(1) by (simp_all add: r2_def shouldIgnoreChanges_def)
  have d2: "run sha256 dups2 r2 = ([], r2)"
    by (rule change_events_dropped [OF at2 assms(7)])
  have s3: "step sha256 (ChangeDelayTimeout p) r2 = ([p], r3)"
    using w2(1,3) by (simp add: onWatch_def fileChangeDelayTimeout_def r2_def r3_def w3_def)
  have paths3: "\<forall>q v. m_watches r3 q = Some v \<longrightarrow> m_filePath v = q"
    using paths w3(2) by (simp add: r3_def)
  have inv3: "\<forall>v. m_watches r3 p = Some v \<longrightarrow> settled c v"
    using w3(1) by (simp add: r3_def)
  have quiet: "p \<notin> set (fst (run sha256 rest r3))
      \<and> (\<forall>v. m_watches (snd (run sha256 rest r3)) p = Some v \<longrightarrow> settled c v)"
  proof (rule run_silent [OF paths3 inv3 assms(8)])
    show "\<forall>v. m_watches (snd (step sha256 e r')) p = Some v \<longrightarrow> settled c v"
      if "afterChange p c e" and "\<forall>v. m_watches r' p = Some v \<longrightarrow> settled c v" for e r'
      using that by (rule step_settled)
    show "\<not> m_fileChangeDelayTimer v" if "settled c v" for v
      using that by (simp add: settled_def)
  qed
  then have "filter (\<lambda>q. q = p) (fst (run sha256 rest r3)) = []"
    by (auto simp: filter_empty_conv)
  then show ?thesis
    using s1 d1 s2 d2 s3 by (simp add: run_append split_beta)
qed

theorem one_notification_per_change_witness:
  "filter (\<lambda>q. q = ''/tmp/a.txt'')
     (fst (run id (OsEvent ''/tmp/a.txt'' # [OsEvent ''/tmp/a.txt'', OsEvent ''/tmp/a.txt'']
                    @ ChecksumResult ''/tmp/a.txt'' ''B'' # [OsEvent ''/tmp/a.txt'']
                    @ ChangeDelayTimeout ''/tmp/a.txt''
                      # [OsEvent ''/tmp/a.txt'', ChecksumResult ''/tmp/a.txt'' ''B'',
                         ChangeDelayTimeout ''/tmp/a.txt''])
            (snd (run id [AddPath [''/tmp/a.txt'' \<mapsto> ''A''] ''/tmp/a.txt'' 0 (- 1)] FileWatcher_new))))
   = [''/tmp/a.txt'']"
proof -
  let ?r = "snd (run id [AddPath [''/tmp/a.txt'' \<mapsto> ''A''] ''/tmp/a.txt'' 0 (- 1)] FileWatcher_new)"
  let ?w = "\<lparr>m_filePath = ''/tmp/a.txt'', m_fileChecksum = ''A'', m_fileChangeDelayTimer = False,
             m_fileIgnoreDelayTimer = False, m_fileChecksumTimer = None,
             m_fileChecksumSizeBytes = - 1024, m_ignoreFileChange = False, pendingChecks = 0\<rparr>"
  have h2: "m_watches ?r ''/tmp/a.txt'' = Some ?w"
    by (simp add: watch_defs)
  have h3: "\<not> shouldIgnoreChanges ?w"
    by (simp add: shouldIgnoreChanges_def)
  have h4: "pendingChecks ?w = 0"
    by simp
  have h5: "''B'' \<noteq> m_fileChecksum ?w"
    by simp
  have h6: "set [OsEvent ''/tmp/a.txt'', OsEvent ''/tmp/a.txt'']
            \<subseteq> {OsEvent ''/tmp/a.txt'', ChecksumTimeout ''/tmp/a.txt''}"
    by simp
  have h7: "set [OsEvent ''/tmp/a.txt''] \<subseteq> {OsEvent ''/tmp/a.txt'', ChecksumTimeout ''/tmp/a.txt''}"
    by simp
  have h8: "\<forall>e\<in>set [OsEvent ''/tmp/a.txt'', ChecksumResult ''/tmp/a.txt'' ''B'',
                       ChangeDelayTimeout ''/tmp/a.txt'']. afterChange ''/tmp/a.txt'' ''B'' e"
    by simp
  show ?thesis
    by (rule one_notification_per_change [OF refl h2 h3 h4 h5 h6 h7 h8])
qed

text \<open>
  Registration of a file that cannot be opened: \<^verbatim>\<open>start\<close> has cleared the stored digest
  before it computes the checksum, so the digest it stores is the empty one.
\<close>

theorem start_on_unreadable_file_stores_empty_checksum:
  assumes "fs path = None"
  shows "m_fileChecksum (start sha256 fs path i k w) = []"
  using assms by (simp add: start_def stop_def calculateChecksum_def Let_def)

theorem start_on_unreadable_file_stores_empty_checksum_witness:
  "m_fileChecksum (start id Map.empty ''/tmp/a.txt'' 0 (- 1)
     (start id [''/tmp/a.txt'' \<mapsto> ''A''] ''/tmp/a.txt'' 0 (- 1) FileWatcherPrivate_new)) = []"
  by (rule start_on_unreadable_file_stores_empty_checksum) simp

text \<open>
  The size limit within the range of \<^verbatim>\<open>int\<close>: for a file that opens and a limit of \<open>N\<close>
  KiB with \<open>N * 1024\<close> in that range, a positive \<open>N\<close> gives the hash of the first
  \<open>N * 1024\<close> bytes, so two files that agree on them have the same checksum, and a
  limit that is not positive gives the hash of the whole file.
\<close>

theorem checksum_prefix_limit:
  assumes "fs path = Some c" and "fs' path = Some c'"
    and "- 2097152 \<le> N" and "N \<le> 2097151"
  shows "(0 < N \<longrightarrow>
            calculateChecksum sha256 fs (start sha256 fs0 path i N w0) = sha256 (take (nat (N * 1024)) c))
       \<and> (0 < N \<and> take (nat (N * 1024)) c = take (nat (N * 1024)) c' \<longrightarrow>
            calculateChecksum sha256 fs (start sha256 fs0 path i N w0)
            = calculateChecksum sha256 fs' (start sha256 fs0 path i N w0))
       \<and> (N \<le> 0 \<longrightarrow> calculateChecksum sha256 fs (start sha256 fs0 path i N w0) = sha256 c)"
proof -
  have "int_wrap (N * 1024) = N * 1024"
    using assms(3,4) by (intro int_wrap_id) auto
  then show ?thesis
    using assms(1,2) by (auto simp: calculateChecksum_def start_path start_size)
qed

theorem checksum_prefix_limit_witness:
  "calculateChecksum id [''/tmp/a.txt'' \<mapsto> replicate 1024 CHR ''a'' @ ''x'']
      (start id Map.empty ''/tmp/a.txt'' 0 1 FileWatcherPrivate_new)
   = calculateChecksum id [''/tmp/a.txt'' \<mapsto> replicate 1024 CHR ''a'' @ ''y'']
      (start id Map.empty ''/tmp/a.txt'' 0 1 FileWatcherPrivate_new)
   \<and> calculateChecksum id [''/tmp/a.txt'' \<mapsto> replicate 1024 CHR ''a'' @ ''x'']
      (start id Map.empty ''/tmp/a.txt'' 0 (- 1) FileWatcherPrivate_new)
   = replicate 1024 CHR ''a'' @ ''x''"
proof -
  have beyond: "calculateChecksum id [''/tmp/a.txt'' \<mapsto> replicate 1024 CHR ''a'' @ ''x'']
      (start id Map.empty ''/tmp/a.txt'' 0 1 FileWatcherPrivate_new)
   = calculateChecksum id [''/tmp/a.txt'' \<mapsto> replicate 1024 CHR ''a'' @ ''y'']
      (start id Map.empty ''/tmp/a.txt'' 0 1 FileWatcherPrivate_new)"
    using checksum_prefix_limit [of "[''/tmp/a.txt'' \<mapsto> replicate 1024 CHR ''a'' @ ''x'']"
      "''/tmp/a.txt''" "replicate 1024 CHR ''a'' @ ''x''"
      "[''/tmp/a.txt'' \<mapsto> replicate 1024 CHR ''a'' @ ''y'']"
      "replicate 1024 CHR ''a'' @ ''y''" 1 id Map.empty 0 FileWatcherPrivate_new, simplified]
    by blast
  have whole: "calculateChecksum id [''/tmp/a.txt'' \<mapsto> replicate 1024 CHR ''a'' @ ''x'']
      (start id Map.empty ''/tmp/a.txt'' 0 (- 1) FileWatcherPrivate_new)
   = replicate 1024 CHR ''a'' @ ''x''"
    using checksum_prefix_limit [of "[''/tmp/a.txt'' \<mapsto> replicate 1024 CHR ''a'' @ ''x'']"
      "''/tmp/a.txt''" "replicate 1024 CHR ''a'' @ ''x''"
      "[''/tmp/a.txt'' \<mapsto> replicate 1024 CHR ''a'' @ ''x'']"
      "replicate 1024 CHR ''a'' @ ''x''" "- 1" id Map.empty 0 FileWatcherPrivate_new, simplified]
    by blast
  show ?thesis
    using beyond whole by blast
qed

text \<open>
  A result that arrives after its path has been registered again is applied all the same:
  a check dispatched before the registration and computed on a file that cannot be opened
  returns the digest stored before; the registration stores the empty digest; and the
  callback then finds the two different, so the path is emitted as changed although its file
  could not be opened at any time after the first registration.
\<close>

theorem late_result_after_registration_reports_change:
  assumes "fs p = Some a" and "fs' p = None" and "sha256 a \<noteq> []" and "p \<noteq> []"
  shows "calculateChecksum sha256 fs' (checkFileChanged (start sha256 fs p 0 (- 1) FileWatcherPrivate_new))
           = sha256 a
         \<and> fst (run sha256
              [AddPath fs p 0 (- 1), OsEvent p, AddPath fs' p 0 (- 1),
               ChecksumResult p
                 (calculateChecksum sha256 fs'
                    (checkFileChanged (start sha256 fs p 0 (- 1) FileWatcherPrivate_new))),
               ChangeDelayTimeout p]
              FileWatcher_new) = [p]"
  using assms by (simp add: watch_defs)

theorem late_result_after_registration_reports_change_witness:
  "fst (run id
      [AddPath [''/tmp/a.txt'' \<mapsto> ''A''] ''/tmp/a.txt'' 0 (- 1), OsEvent ''/tmp/a.txt'',
       AddPath Map.empty ''/tmp/a.txt'' 0 (- 1),
       ChecksumResult ''/tmp/a.txt''
         (calculateChecksum id Map.empty
            (checkFileChanged
               (start id [''/tmp/a.txt'' \<mapsto> ''A''] ''/tmp/a.txt'' 0 (- 1) FileWatcherPrivate_new))),
       ChangeDelayTimeout ''/tmp/a.txt'']
      FileWatcher_new) = [''/tmp/a.txt'']"
  by (rule conjunct2 [OF late_result_after_registration_reports_change
        [of "[''/tmp/a.txt'' \<mapsto> ''A'']" "''/tmp/a.txt''" "''A''" Map.empty id]])
    simp_all

end
